theory Spec2Isabelle
  imports Main "HOL-Library.Word"
begin

unbundle bit_operations_syntax

section \<open>The epoll socket of src/src/tepollsocket.cpp\<close>

text \<open>
  The source file holds one class, \<open>TEpollSocket\<close>, and three process-wide statics.
  Its collaborators (the outbound buffer \<open>TSendBuffer\<close>, the access logger
  \<open>TAccessLogger\<close>, the receive buffer of the subclass, the reactor \<open>TEpoll\<close>) and the
  kernel are not part of the file. The collaborators are modelled from the contracts the
  specification gives for them; the kernel is a script of replies, one per system call.
  Diagnostic output (\<open>tSystemDebug\<close>, \<open>tSystemWarn\<close>, \<open>tSystemError\<close>) changes no state
  of the class and is left out.
\<close>

subsection \<open>Constants of the operating system\<close>

type_synonym byte = "8 word"

definition EAGAIN :: int where
  "EAGAIN = 11"

definition ECONNRESET :: int where
  "ECONNRESET = 104"

definition EPOLLIN :: "32 word" where
  "EPOLLIN = 1"

definition EPOLLOUT :: "32 word" where
  "EPOLLOUT = 4"

definition EPOLLET :: "32 word" where
  "EPOLLET = push_bit 31 1"

subsection \<open>Access logger and outbound buffer\<close>

text \<open>
  Modelled from the spec: \<open>TAccessLogger\<close> is not in the source file. The specification
  gives it a settable and readable response-byte count and a \<open>write()\<close> that persists the
  record. The record is its byte count; \<open>write()\<close> appends the record to the access log
  of the connection state below.
\<close>

record taccesslogger =
  responseBytes :: int

text \<open>Modelled from the spec: the setter of the response-byte count.\<close>

definition setResponseBytes :: "taccesslogger \<Rightarrow> int \<Rightarrow> taccesslogger" where
  "setResponseBytes logger n = logger\<lparr>responseBytes := n\<rparr>"

text \<open>
  Modelled from the spec: \<open>TSendBuffer\<close> is not in the source file. The specification
  gives it a bounded read window into the remaining bytes for a capacity hint (clamped to
  what remains), an advance operation that consumes the bytes sent, an end-of-data query,
  and an access-log record that it carries. \<open>sb_data\<close> is the bytes not yet consumed.
\<close>

record tsendbuffer =
  sb_data :: "byte list"
  accessLogger :: taccesslogger

text \<open>
  Modelled from the spec: the read window for the capacity hint \<open>len\<close>. The length of
  the list is the value the call leaves in \<open>len\<close>.
\<close>

definition getData :: "tsendbuffer \<Rightarrow> int \<Rightarrow> byte list" where
  "getData buf len = take (nat len) (sb_data buf)"

text \<open>Modelled from the spec: the advance operation, consuming \<open>len\<close> bytes.\<close>

definition seekData :: "tsendbuffer \<Rightarrow> int \<Rightarrow> tsendbuffer" where
  "seekData buf len = buf\<lparr>sb_data := drop (nat len) (sb_data buf)\<rparr>"

text \<open>Modelled from the spec: the end-of-data query.\<close>

definition atEnd :: "tsendbuffer \<Rightarrow> bool" where
  "atEnd buf = (sb_data buf = [])"

text \<open>
  Modelled from the spec: the constructor \<open>TSendBuffer(const QByteArray &)\<close> is not in
  the source file. Bytes are wrapped into an in-memory outbound buffer; its access-log
  record starts with a count of zero.
\<close>

definition new_TSendBuffer :: "byte list \<Rightarrow> tsendbuffer" where
  "new_TSendBuffer bytes = \<lparr>sb_data = bytes, accessLogger = \<lparr>responseBytes = 0\<rparr>\<rparr>"

subsection \<open>Process-wide statics\<close>

text \<open>
  \<open>static int sendBufSize = 0; static int recvBufSize = 0;
  static QAtomicInt objectCounter(1);\<close> The counter is a 32-bit \<open>int\<close>, and
  \<open>fetchAndAddOrdered\<close> wraps around.
\<close>

record statics =
  sendBufSize :: int
  recvBufSize :: int
  objectCounter :: "32 word"

definition initial_statics :: statics where
  "initial_statics = \<lparr>sendBufSize = 0, recvBufSize = 0, objectCounter = 1\<rparr>"

definition BUF_SIZE :: int where
  "BUF_SIZE = 128 * 1024"

text \<open>
  \<open>TEpollSocket::initBuffer\<close>. The two further arguments are the kernel's answers to the
  two \<open>getsockopt\<close> calls, should they be made: \<open>None\<close> is a failed call
  (\<open>res < 0\<close>), \<open>Some v\<close> a call that stored \<open>v\<close>.
\<close>

definition initBuffer :: "statics \<Rightarrow> int option \<Rightarrow> int option \<Rightarrow> statics" where
  "initBuffer g so_sndbuf so_rcvbuf =
     (if sendBufSize g = 0
      then g\<lparr>sendBufSize := (case so_sndbuf of None \<Rightarrow> BUF_SIZE | Some v \<Rightarrow> v),
             recvBufSize := (case so_rcvbuf of None \<Rightarrow> BUF_SIZE | Some v \<Rightarrow> v)\<rparr>
      else g)"

subsection \<open>The connection\<close>

text \<open>
  The fields \<open>sd\<close>, \<open>identifier\<close> and \<open>sendBuf\<close> are the members of the class
  (\<open>clientAddr\<close> is never read in the file). \<open>recvBuffer\<close> is the receive buffer of the
  subclass. The other fields record the effects of the class on its surroundings, in
  order: the bytes the kernel accepted from \<open>::send\<close>, the access-log records written,
  the outbound buffers deleted, the event masks handed to \<open>TEpoll::modifyPoll\<close>, and the
  descriptors handed to \<open>TF_CLOSE\<close>.
\<close>

record tepollsocket =
  sd :: int
  "identifier" :: "64 word"
  sendBuf :: "tsendbuffer list"
  recvBuffer :: "byte list"
  wire :: "byte list"
  accessLog :: "taccesslogger list"
  deleted :: "tsendbuffer list"
  polled :: "32 word list"
  closedFds :: "int list"

text \<open>
  The constructor. \<open>h\<close> is the value of \<open>quint64 h\<close>, the clock reading;
  \<open>quint64 b\<close> is the old counter value, converted from \<open>int\<close> (sign extension).
\<close>

definition make_identifier :: "64 word \<Rightarrow> 32 word \<Rightarrow> 64 word" where
  "make_identifier h counter = (push_bit 32 h) OR ((scast counter) AND 0xffffffff)"

definition TEpollSocket :: "statics \<Rightarrow> int \<Rightarrow> 64 word \<Rightarrow> tepollsocket \<times> statics" where
  "TEpollSocket g socketDescriptor h =
     (\<lparr>sd = socketDescriptor,
       identifier = make_identifier h (objectCounter g),
       sendBuf = [], recvBuffer = [], wire = [], accessLog = [], deleted = [],
       polled = [], closedFds = []\<rparr>,
      g\<lparr>objectCounter := objectCounter g + 1\<rparr>)"


text \<open>\<open>TEpollSocket::close\<close> and the destructor.\<close>

definition close :: "tepollsocket \<Rightarrow> tepollsocket" where
  "close s = (if sd s > 0 then s\<lparr>closedFds := closedFds s @ [sd s], sd := 0\<rparr> else s)"

definition destructor :: "tepollsocket \<Rightarrow> tepollsocket" where
  "destructor s =
     (let s1 = close s
      in s1\<lparr>deleted := deleted s1 @ sendBuf s1, sendBuf := []\<rparr>)"

text \<open>The two overloads of \<open>TEpollSocket::enqueueSendData\<close>.\<close>

definition enqueueSendData :: "tepollsocket \<Rightarrow> tsendbuffer \<Rightarrow> tepollsocket" where
  "enqueueSendData s buffer = s\<lparr>sendBuf := sendBuf s @ [buffer]\<rparr>"

definition enqueueSendBytes :: "tepollsocket \<Rightarrow> byte list \<Rightarrow> tepollsocket" where
  "enqueueSendBytes s bytes = s\<lparr>sendBuf := sendBuf s @ [new_TSendBuffer bytes]\<rparr>"

subsection \<open>Receiving\<close>

text \<open>
  One reply of the kernel to \<open>::recv\<close>: the value returned, \<open>errno\<close> after the call,
  and the bytes stored into the region.
\<close>

record recv_reply =
  rr_len :: int
  rr_errno :: int
  rr_bytes :: "byte list"

text \<open>
  Modelled from the spec: \<open>getRecvBuffer\<close> and \<open>seekRecvBuffer\<close> are declared by the
  class and defined outside the source file. The receive buffer is an append-only byte
  sink: reserving a writable region leaves the committed bytes as they are, and
  committing \<open>len\<close> bytes appends the first \<open>len\<close> bytes of the region.
\<close>

definition getRecvBuffer :: "byte list \<Rightarrow> int \<Rightarrow> byte list" where
  "getRecvBuffer rb bufsize = rb"

text \<open>
  Modelled from the spec: \<open>seekRecvBuffer\<close> commits the first \<open>len\<close> bytes of the
  region that \<open>::recv\<close> has written.
\<close>

definition seekRecvBuffer :: "byte list \<Rightarrow> byte list \<Rightarrow> int \<Rightarrow> byte list" where
  "seekRecvBuffer rb region len = rb @ take (nat len) region"

text \<open>
  The loop of \<open>TEpollSocket::recv\<close>. It returns the last \<open>errno\<close>, the receive buffer and
  the replies not consumed; \<open>None\<close> when the script ends before the loop does.
\<close>

fun recv_loop :: "int \<Rightarrow> byte list \<Rightarrow> recv_reply list \<Rightarrow> (int \<times> byte list \<times> recv_reply list) option" where
  "recv_loop bufsize rb [] = None"
| "recv_loop bufsize rb (r # rs) =
     (if rr_len r \<le> 0 then Some (rr_errno r, getRecvBuffer rb bufsize, rs)
      else recv_loop bufsize (seekRecvBuffer (getRecvBuffer rb bufsize) (rr_bytes r) (rr_len r)) rs)"

definition recv_switch :: "int \<Rightarrow> int" where
  "recv_switch err =
     (if err = EAGAIN then 0
      else if err = 0 \<or> err = ECONNRESET then -1
      else -1)"

definition recv :: "statics \<Rightarrow> tepollsocket \<Rightarrow> recv_reply list \<Rightarrow> (int \<times> tepollsocket \<times> recv_reply list) option" where
  "recv g s script =
     (case recv_loop (recvBufSize g) (recvBuffer s) script of
        None \<Rightarrow> None
      | Some (err, rb, rest) \<Rightarrow> Some (recv_switch err, s\<lparr>recvBuffer := rb\<rparr>, rest))"

subsection \<open>Sending\<close>

text \<open>
  One reply of the kernel to \<open>::send\<close>: the number of bytes it is ready to take (or a
  value \<open>\<le> 0\<close> when it takes none) and \<open>errno\<close> after the call. The kernel never takes
  more than the \<open>len\<close> bytes it is offered.
\<close>

type_synonym send_reply = "int \<times> int"

definition os_send :: "send_reply \<Rightarrow> byte list \<Rightarrow> int" where
  "os_send r data = (if fst r > int (length data) then int (length data) else fst r)"

definition sent :: "tsendbuffer \<Rightarrow> int \<Rightarrow> tsendbuffer" where
  "sent buf len =
     (seekData buf len)\<lparr>accessLogger :=
        setResponseBytes (accessLogger buf) (responseBytes (accessLogger buf) + len)\<rparr>"

text \<open>
  The loop of \<open>TEpollSocket::send\<close> on the head buffer. It returns the last \<open>errno\<close>,
  the head buffer, the bytes on the wire and the replies not consumed; \<open>None\<close> when the
  script ends before the loop does.
\<close>

fun send_loop :: "int \<Rightarrow> int \<Rightarrow> tsendbuffer \<Rightarrow> byte list \<Rightarrow> send_reply list \<Rightarrow>
    (int \<times> tsendbuffer \<times> byte list \<times> send_reply list) option" where
  "send_loop bufsize err buf w [] =
     (if length (getData buf bufsize) = 0 then Some (err, buf, w, []) else None)"
| "send_loop bufsize err buf w (r # rs) =
     (if length (getData buf bufsize) = 0 then Some (err, buf, w, r # rs)
      else if os_send r (getData buf bufsize) > 0
      then send_loop bufsize (snd r) (sent buf (os_send r (getData buf bufsize)))
             (w @ take (nat (os_send r (getData buf bufsize))) (getData buf bufsize)) rs
      else Some (snd r, buf, w, rs))"

text \<open>The \<open>switch\<close> after the loop: the return value and the head buffer.\<close>

definition send_switch :: "int \<Rightarrow> tsendbuffer \<Rightarrow> int \<times> tsendbuffer" where
  "send_switch err buf =
     (if err = 0 \<or> err = EAGAIN then (0, buf)
      else if err = ECONNRESET
      then (-1, buf\<lparr>accessLogger := setResponseBytes (accessLogger buf) (-1)\<rparr>)
      else (-1, buf\<lparr>accessLogger := setResponseBytes (accessLogger buf) (-1)\<rparr>))"

text \<open>
  Modelled from the spec: \<open>TEpoll::modifyPoll\<close> is not in the source file. It asks the
  reactor to re-arm the connection for the given events; the request is recorded.
\<close>

definition modifyPoll :: "tepollsocket \<Rightarrow> 32 word \<Rightarrow> tepollsocket" where
  "modifyPoll s events = s\<lparr>polled := polled s @ [events]\<rparr>"

text \<open>
  \<open>TEpollSocket::send\<close> from \<open>int err = 0\<close> to the end of the loop, for a non-empty
  queue: \<open>buf\<close> is \<open>sendBuf.first()\<close>, and what the loop does to \<open>buf\<close> it does to the
  head of the queue. It returns the last \<open>errno\<close>, the state after the loop and the
  replies not consumed.
\<close>

definition send_drain :: "statics \<Rightarrow> tepollsocket \<Rightarrow> send_reply list \<Rightarrow>
    (int \<times> tepollsocket \<times> send_reply list) option" where
  "send_drain g s script =
     (case send_loop (sendBufSize g) 0 (hd (sendBuf s)) (wire s) script of
        None \<Rightarrow> None
      | Some (err, buf, w, script') \<Rightarrow>
          Some (err, s\<lparr>sendBuf := buf # tl (sendBuf s), wire := w\<rparr>, script'))"

text \<open>
  The rest of \<open>TEpollSocket::send\<close>: the \<open>switch\<close>, whose \<open>setResponseBytes(-1)\<close> goes
  to the logger of the head buffer, the call of the reactor, and the retirement of the
  head.
\<close>

definition send_finish :: "int \<Rightarrow> tepollsocket \<Rightarrow> int \<times> tepollsocket" where
  "send_finish err s =
     (let ret = fst (send_switch err (hd (sendBuf s)));
          s1 = s\<lparr>sendBuf := snd (send_switch err (hd (sendBuf s))) # tl (sendBuf s)\<rparr>;
          s2 = (if err \<noteq> EAGAIN \<and> sendBuf s1 \<noteq> []
                then modifyPoll s1 (EPOLLIN OR EPOLLOUT OR EPOLLET) else s1);
          s3 = (if atEnd (hd (sendBuf s2)) \<or> ret < 0
                then s2\<lparr>accessLog := accessLog s2 @ [accessLogger (hd (sendBuf s2))],
                        deleted := deleted s2 @ [hd (sendBuf s2)],
                        sendBuf := tl (sendBuf s2)\<rparr>
                else s2)
      in (ret, s3))"

definition send :: "statics \<Rightarrow> tepollsocket \<Rightarrow> send_reply list \<Rightarrow>
    (int \<times> tepollsocket \<times> send_reply list) option" where
  "send g s script =
     (if sendBuf s = [] then Some (0, s, script)
      else (case send_drain g s script of
              None \<Rightarrow> None
            | Some (err, s1, script') \<Rightarrow>
                Some (fst (send_finish err s1), snd (send_finish err s1), script')))"

subsection \<open>Runs of a connection\<close>

text \<open>
  What its users do to the outbound side of a connection, in order: enqueue a buffer,
  enqueue bytes, or call \<open>send()\<close> while the kernel answers with the given replies.
  A run is \<open>None\<close> when a call of \<open>send()\<close> needs more replies than it is given.
\<close>

datatype op = Enqueue tsendbuffer | EnqueueBytes "byte list" | Send "send_reply list"

fun run :: "statics \<Rightarrow> tepollsocket \<Rightarrow> op list \<Rightarrow> tepollsocket option" where
  "run g s [] = Some s"
| "run g s (Enqueue buffer # ops) = run g (enqueueSendData s buffer) ops"
| "run g s (EnqueueBytes bytes # ops) = run g (enqueueSendBytes s bytes) ops"
| "run g s (Send script # ops) =
     (case send g s script of None \<Rightarrow> None | Some (ret, s', rest) \<Rightarrow> run g s' ops)"

text \<open>The buffers enqueued by a run, in the order of the calls.\<close>

fun buffers :: "op list \<Rightarrow> tsendbuffer list" where
  "buffers [] = []"
| "buffers (Enqueue buffer # ops) = buffer # buffers ops"
| "buffers (EnqueueBytes bytes # ops) = new_TSendBuffer bytes # buffers ops"
| "buffers (Send script # ops) = buffers ops"

text \<open>
  The invariant of the outbound side, for the buffers \<open>E\<close> enqueued so far: they are, in
  order, the originals \<open>olds\<close> of the buffers deleted, then the original of the head,
  then the rest of the queue as it was enqueued. Each deleted buffer gave the wire the
  bytes \<open>ps\<close> that precede what it had left, the head gave \<open>ph\<close>, and the wire is these
  bytes in that order.
\<close>

definition fifo :: "tsendbuffer list \<Rightarrow> tepollsocket \<Rightarrow> bool" where
  "fifo E s =
     (\<exists>ps ph olds. length ps = length (deleted s) \<and> wire s = concat ps @ ph \<and>
        map sb_data olds = map2 (@) ps (map sb_data (deleted s)) \<and>
        (case sendBuf s of
           [] \<Rightarrow> ph = [] \<and> E = olds
         | b # rest \<Rightarrow> \<exists>b0. sb_data b0 = ph @ sb_data b \<and> E = olds @ b0 # rest))"

text \<open>Successive calls of \<open>initBuffer\<close>, one per connection created.\<close>

fun initBuffer_calls :: "statics \<Rightarrow> (int option \<times> int option) list \<Rightarrow> statics" where
  "initBuffer_calls g [] = g"
| "initBuffer_calls g (q # qs) = initBuffer_calls (initBuffer g (fst q) (snd q)) qs"

subsection \<open>Example states\<close>

text \<open>
  Statics after a discovery that found a send buffer of two bytes, a fresh connection on
  descriptor 7, and the same connection with two byte sequences enqueued.
\<close>

definition statics2 :: statics where
  "statics2 = initBuffer initial_statics (Some 2) None"

definition conn0 :: tepollsocket where
  "conn0 = fst (TEpollSocket initial_statics 7 0)"

definition conn2 :: tepollsocket where
  "conn2 = enqueueSendBytes (enqueueSendBytes conn0 [1, 2, 3]) [4, 5]"

section \<open>Auxiliary facts\<close>

lemmas model_defs =
  EAGAIN_def ECONNRESET_def EPOLLIN_def EPOLLOUT_def EPOLLET_def
  setResponseBytes_def getData_def seekData_def atEnd_def new_TSendBuffer_def
  initial_statics_def BUF_SIZE_def initBuffer_def make_identifier_def TEpollSocket_def
  close_def destructor_def enqueueSendData_def enqueueSendBytes_def
  getRecvBuffer_def seekRecvBuffer_def recv_switch_def recv_def
  os_send_def sent_def send_switch_def modifyPoll_def send_drain_def send_finish_def
  send_def statics2_def conn0_def conn2_def Let_def

subsection \<open>The receive loop\<close>

lemma recv_loop_drains:
  assumes "\<forall>r \<in> set pre. rr_len r > 0" and "rr_len t \<le> 0"
  shows "recv_loop n rb (pre @ t # rest) =
           Some (rr_errno t, rb @ concat (map (\<lambda>r. take (nat (rr_len r)) (rr_bytes r)) pre), rest)"
  using assms
  by (induction pre arbitrary: rb) (simp_all add: getRecvBuffer_def seekRecvBuffer_def)

lemma recv_loop_returns:
  assumes "\<exists>r \<in> set script. rr_len r \<le> 0"
  shows "\<exists>res. recv_loop n rb script = Some res"
  using assms
proof (induction script arbitrary: rb)
  case Nil
  then show ?case by simp
next
  case (Cons a script)
  show ?case
  proof (cases "rr_len a \<le> 0")
    case True
    then show ?thesis by simp
  next
    case False
    then have "\<exists>r \<in> set script. rr_len r \<le> 0" using Cons.prems by auto
    from Cons.IH [OF this] False show ?thesis by simp
  qed
qed

lemma recv_bytes_length:
  assumes "\<forall>r \<in> set pre. rr_len r = int (length (rr_bytes r))"
  shows "int (length (concat (map rr_bytes pre))) = sum_list (map rr_len pre)"
  using assms by (induction pre) simp_all

subsection \<open>The send loop and the rest of send\<close>

lemma os_send_le: "os_send r d \<le> int (length d)"
  by (simp add: os_send_def)

lemma send_loop_conserves:
  assumes "send_loop n err buf w script = Some (err', buf', w', script')"
  shows "\<exists>p. w' = w @ p \<and> p @ sb_data buf' = sb_data buf"
  using assms
proof (induction n err buf w script rule: send_loop.induct)
  case (1 n err buf w)
  then show ?case by (simp split: if_splits)
next
  case (2 n err buf w r rs)
  let ?d = "getData buf n"
  let ?k = "os_send r ?d"
  show ?case
  proof (cases "length ?d = 0 \<or> \<not> ?k > 0")
    case True
    then show ?thesis using "2.prems" by (auto split: if_splits)
  next
    case False
    then have rec: "send_loop n (snd r) (sent buf ?k) (w @ take (nat ?k) ?d) rs
        = Some (err', buf', w', script')"
      using "2.prems" by simp
    from "2.IH" [OF _ _ rec] False obtain p where
      p: "w' = (w @ take (nat ?k) ?d) @ p" "p @ sb_data buf' = sb_data (sent buf ?k)"
      by auto
    have kle: "nat ?k \<le> length ?d" using os_send_le [of r ?d] by linarith
    have "nat ?k \<le> nat n" using kle by (simp add: getData_def)
    then have "take (nat ?k) ?d = take (nat ?k) (sb_data buf)"
      by (simp add: getData_def min_absorb1)
    moreover have "sb_data (sent buf ?k) = drop (nat ?k) (sb_data buf)"
      by (simp add: sent_def seekData_def)
    ultimately have "w' = w @ (take (nat ?k) (sb_data buf) @ p) \<and>
        (take (nat ?k) (sb_data buf) @ p) @ sb_data buf' = sb_data buf"
      using p by simp
    then show ?thesis by blast
  qed
qed

lemma send_loop_total:
  assumes "length (sb_data buf) < length script"
  shows "\<exists>res. send_loop n err buf w script = Some res"
  using assms
proof (induction n err buf w script rule: send_loop.induct)
  case (1 n err buf w)
  then show ?case by simp
next
  case (2 n err buf w r rs)
  let ?d = "getData buf n"
  let ?k = "os_send r ?d"
  show ?case
  proof (cases "length ?d = 0 \<or> \<not> ?k > 0")
    case True
    then show ?thesis by auto
  next
    case False
    then have "length (sb_data (sent buf ?k)) < length (sb_data buf)"
      by (auto simp add: sent_def seekData_def getData_def)
    then have "length (sb_data (sent buf ?k)) < length rs" using "2.prems" by simp
    from "2.IH" [OF _ _ this] False show ?thesis by auto
  qed
qed

lemma send_drain_queue:
  assumes "send_drain g s script = Some (err, s1, script')"
  shows "\<exists>buf. sendBuf s1 = buf # tl (sendBuf s)"
  using assms by (auto simp: send_drain_def split: option.splits)

lemma send_drain_frame:
  assumes "send_drain g s script = Some (err, s1, script')"
  shows "accessLog s1 = accessLog s \<and> deleted s1 = deleted s \<and> polled s1 = polled s"
  using assms by (auto simp: send_drain_def split: option.splits)

lemma send_finish_error:
  assumes "err \<noteq> 0" and "err \<noteq> EAGAIN" and "sendBuf s = buf # rest"
  shows "send_finish err s =
    (-1, s\<lparr>sendBuf := rest,
           polled := polled s @ [EPOLLIN OR EPOLLOUT OR EPOLLET],
           accessLog := accessLog s @ [setResponseBytes (accessLogger buf) (-1)],
           deleted := deleted s @ [buf\<lparr>accessLogger := setResponseBytes (accessLogger buf) (-1)\<rparr>]\<rparr>)"
  using assms by (simp add: send_finish_def send_switch_def modifyPoll_def Let_def)

lemma send_finish_end:
  assumes "err = 0 \<or> err = EAGAIN" and "sendBuf s = buf # rest" and "atEnd buf"
  shows "send_finish err s =
    (0, s\<lparr>sendBuf := rest,
          polled := (if err = EAGAIN then polled s else polled s @ [EPOLLIN OR EPOLLOUT OR EPOLLET]),
          accessLog := accessLog s @ [accessLogger buf],
          deleted := deleted s @ [buf]\<rparr>)"
  using assms by (auto simp add: send_finish_def send_switch_def modifyPoll_def Let_def)

lemma send_finish_more:
  assumes "err = 0 \<or> err = EAGAIN" and "sendBuf s = buf # rest" and "\<not> atEnd buf"
  shows "send_finish err s =
    (0, s\<lparr>polled := (if err = EAGAIN then polled s else polled s @ [EPOLLIN OR EPOLLOUT OR EPOLLET])\<rparr>)"
  using assms by (auto simp add: send_finish_def send_switch_def modifyPoll_def Let_def)

lemma send_finish_polled:
  assumes "sendBuf s \<noteq> []"
  shows "polled (snd (send_finish err s)) =
    (if err \<noteq> EAGAIN then polled s @ [EPOLLIN OR EPOLLOUT OR EPOLLET] else polled s)"
  using assms by (simp add: send_finish_def send_switch_def modifyPoll_def Let_def)

lemma send_unfold:
  assumes "sendBuf s \<noteq> []" and "send_drain g s script = Some (err, s1, script')"
  shows "send g s script = Some (fst (send_finish err s1), snd (send_finish err s1), script')"
  using assms by (simp add: send_def)

lemma send_returns:
  assumes "length (sb_data (hd (sendBuf s))) < length script"
  shows "\<exists>res. send g s script = Some res"
  using send_loop_total [OF assms, of "sendBufSize g" 0 "wire s"]
  by (auto simp add: send_def send_drain_def)

lemma send_step:
  assumes "sendBuf s = first # rest" and "send g s script = Some (ret, s', script')"
  shows "\<exists>p buf. wire s' = wire s @ p \<and> p @ sb_data buf = sb_data first \<and>
           ((sendBuf s' = buf # rest \<and> deleted s' = deleted s) \<or>
            (sendBuf s' = rest \<and> deleted s' = deleted s @ [buf]))"
proof -
  from assms obtain err b1 w1 where
    l: "send_loop (sendBufSize g) 0 first (wire s) script = Some (err, b1, w1, script')"
    and r: "s' = snd (send_finish err (s\<lparr>sendBuf := b1 # rest, wire := w1\<rparr>))"
    by (auto simp: send_def send_drain_def split: option.splits)
  from send_loop_conserves [OF l] obtain p where
    p: "w1 = wire s @ p" "p @ sb_data b1 = sb_data first" by blast
  let ?b2 = "snd (send_switch err b1)"
  have d2: "sb_data ?b2 = sb_data b1" by (simp add: send_switch_def)
  have "wire s' = w1 \<and> ((sendBuf s' = ?b2 # rest \<and> deleted s' = deleted s) \<or>
            (sendBuf s' = rest \<and> deleted s' = deleted s @ [?b2]))"
    by (simp add: r send_finish_def Let_def modifyPoll_def)
  then show ?thesis using p d2 by metis
qed

subsection \<open>The invariant of the outbound side\<close>

lemma fifo_enqueue:
  assumes "fifo E s"
  shows "fifo (E @ [b]) (enqueueSendData s b)"
proof -
  from assms obtain ps ph olds where h: "length ps = length (deleted s)" "wire s = concat ps @ ph"
     "map sb_data olds = map2 (@) ps (map sb_data (deleted s))"
     "case sendBuf s of [] \<Rightarrow> ph = [] \<and> E = olds
       | b # rest \<Rightarrow> \<exists>b0. sb_data b0 = ph @ sb_data b \<and> E = olds @ b0 # rest"
    unfolding fifo_def by blast
  show ?thesis unfolding fifo_def
    apply (rule exI [of _ ps], rule exI [of _ ph], rule exI [of _ olds])
    using h by (cases "sendBuf s") (auto simp add: enqueueSendData_def)
qed

lemma fifo_send:
  assumes "fifo E s" and "send g s script = Some (ret, s', script')"
  shows "fifo E s'"
proof (cases "sendBuf s")
  case Nil
  then show ?thesis using assms by (simp add: send_def)
next
  case (Cons first rest)
  from assms(1) obtain ps ph olds b0 where h: "length ps = length (deleted s)"
     "wire s = concat ps @ ph"
     "map sb_data olds = map2 (@) ps (map sb_data (deleted s))"
     "sb_data b0 = ph @ sb_data first" "E = olds @ b0 # rest"
    unfolding fifo_def using Cons by auto
  from send_step [OF Cons assms(2)] obtain p buf where
    s: "wire s' = wire s @ p" "p @ sb_data buf = sb_data first"
       "(sendBuf s' = buf # rest \<and> deleted s' = deleted s) \<or>
        (sendBuf s' = rest \<and> deleted s' = deleted s @ [buf])" by blast
  from s(3) show ?thesis
  proof
    assume k: "sendBuf s' = buf # rest \<and> deleted s' = deleted s"
    show ?thesis unfolding fifo_def
      apply (rule exI [of _ ps], rule exI [of _ "ph @ p"], rule exI [of _ olds])
      using h s(1,2) k by auto
  next
    assume k: "sendBuf s' = rest \<and> deleted s' = deleted s @ [buf]"
    have m: "map sb_data (olds @ [b0]) = map2 (@) (ps @ [ph @ p]) (map sb_data (deleted s @ [buf]))"
      using h s(2) by simp
    show ?thesis unfolding fifo_def
      apply (rule exI [of _ "ps @ [ph @ p]"], rule exI [of _ "[]"], rule exI [of _ "olds @ [b0]"])
      using h(1,2,5) s(1) k m by (cases rest) simp_all
  qed
qed

lemma fifo_run:
  assumes "run g s0 ops = Some s" and "fifo E s0"
  shows "fifo (E @ buffers ops) s"
  using assms
proof (induction g s0 ops arbitrary: E rule: run.induct)
  case (1 g s0)
  then show ?case by simp
next
  case (2 g s0 buffer ops)
  from "2.IH" [OF "2.prems"(1) [simplified] fifo_enqueue [OF "2.prems"(2)]]
  show ?case by simp
next
  case (3 g s0 bytes ops)
  have "enqueueSendBytes s0 bytes = enqueueSendData s0 (new_TSendBuffer bytes)"
    by (simp add: enqueueSendBytes_def enqueueSendData_def)
  with "3.IH" [of "E @ [new_TSendBuffer bytes]"] "3.prems"
    fifo_enqueue [OF "3.prems"(2), of "new_TSendBuffer bytes"]
  show ?case by simp
next
  case (4 g s0 script ops)
  from "4.prems"(1) obtain ret s' rest where
    x: "send g s0 script = Some (ret, s', rest)" "run g s' ops = Some s"
    by (auto split: option.splits)
  from "4.IH" [OF x(1) refl refl x(2) fifo_send [OF "4.prems"(2) x(1)]]
  show ?case by simp
qed

lemma map2_append_nil:
  assumes "length ps = length ds" and "\<forall>d \<in> set ds. d = []"
  shows "map2 (@) ps ds = ps"
  using assms by (induction ps ds rule: list_induct2) simp_all

subsection \<open>Runs without send errors, and runs with a kernel that takes every window\<close>

lemma send_loop_errno:
  assumes "send_loop n err buf w script = Some (err', buf', w', script')"
  shows "err' = err \<or> err' \<in> snd ` set script"
  using assms
proof (induction n err buf w script rule: send_loop.induct)
  case (1 n err buf w)
  then show ?case by (simp split: if_splits)
next
  case (2 n err buf w r rs)
  show ?case
  proof (cases "length (getData buf n) = 0 \<or> \<not> os_send r (getData buf n) > 0")
    case True
    then show ?thesis using "2.prems" by (auto split: if_splits)
  next
    case False
    then have "send_loop n (snd r) (sent buf (os_send r (getData buf n)))
        (w @ take (nat (os_send r (getData buf n))) (getData buf n)) rs
        = Some (err', buf', w', script')"
      using "2.prems" by simp
    from "2.IH" [OF _ _ this] False show ?thesis by auto
  qed
qed

lemma send_benign_deleted:
  assumes "send g s script = Some (ret, s', script')"
      and "\<forall>r \<in> set script. snd r = 0 \<or> snd r = EAGAIN"
      and "\<forall>b \<in> set (deleted s). atEnd b"
  shows "\<forall>b \<in> set (deleted s'). atEnd b"
proof (cases "sendBuf s = []")
  case True
  then show ?thesis using assms by (simp add: send_def)
next
  case False
  then obtain err b1 w1 where
    l: "send_loop (sendBufSize g) 0 (hd (sendBuf s)) (wire s) script = Some (err, b1, w1, script')"
    and r: "s' = snd (send_finish err (s\<lparr>sendBuf := b1 # tl (sendBuf s), wire := w1\<rparr>))"
    using assms(1) by (auto simp: send_def send_drain_def split: option.splits)
  from send_loop_errno [OF l] assms(2) have e: "err = 0 \<or> err = EAGAIN" by auto
  show ?thesis
    using e assms(3)
    by (auto simp add: r send_finish_def send_switch_def modifyPoll_def Let_def)
qed

lemma run_benign_deleted:
  assumes "run g s0 ops = Some s"
      and "\<forall>script r. Send script \<in> set ops \<and> r \<in> set script \<longrightarrow> snd r = 0 \<or> snd r = EAGAIN"
      and "\<forall>b \<in> set (deleted s0). atEnd b"
  shows "\<forall>b \<in> set (deleted s). atEnd b"
  using assms
proof (induction g s0 ops rule: run.induct)
  case (1 g s0)
  then show ?case by simp
next
  case (2 g s0 buffer ops)
  then show ?case by (simp add: enqueueSendData_def)
next
  case (3 g s0 bytes ops)
  then show ?case by (simp add: enqueueSendBytes_def)
next
  case (4 g s0 script ops)
  from "4.prems"(1) obtain ret s' rest where
    x: "send g s0 script = Some (ret, s', rest)" "run g s' ops = Some s"
    by (auto split: option.splits)
  have b: "\<forall>r \<in> set script. snd r = 0 \<or> snd r = EAGAIN"
  proof
    fix r assume "r \<in> set script"
    then have "Send script \<in> set (Send script # ops) \<and> r \<in> set script" by simp
    with "4.prems"(2) show "snd r = 0 \<or> snd r = EAGAIN" by blast
  qed
  have c: "\<forall>script r. Send script \<in> set ops \<and> r \<in> set script \<longrightarrow> snd r = 0 \<or> snd r = EAGAIN"
    using "4.prems"(2) by auto
  from "4.IH" [OF x(1) refl refl x(2) c send_benign_deleted [OF x(1) b "4.prems"(3)]]
  show ?case .
qed

lemma send_loop_accepts_all:
  assumes "0 < n" and "length (sb_data buf) \<le> m"
  shows "\<exists>buf' rest. send_loop n 0 buf w (replicate m (n, 0)) = Some (0, buf', w @ sb_data buf, rest)
            \<and> sb_data buf' = []"
  using assms(2)
proof (induction m arbitrary: buf w)
  case 0
  then show ?case by (simp add: getData_def)
next
  case (Suc m)
  show ?case
  proof (cases "sb_data buf = []")
    case True
    then show ?thesis by (simp add: getData_def)
  next
    case False
    let ?d = "getData buf n"
    have dne: "length ?d \<noteq> 0" using False assms(1) by (simp add: getData_def)
    have k: "os_send (n, 0) ?d = int (length ?d)"
      using assms(1) by (auto simp add: os_send_def getData_def)
    have kpos: "os_send (n, 0) ?d > 0" using k dne by simp
    have d': "sb_data (sent buf (int (length ?d))) = drop (nat n) (sb_data buf)"
      using assms(1) by (auto simp add: sent_def seekData_def getData_def min_def)
    have "length (drop (nat n) (sb_data buf)) \<le> m" using Suc.prems False assms(1) by simp
    then have "length (sb_data (sent buf (int (length ?d)))) \<le> m" using d' by simp
    from Suc.IH [OF this, of "w @ ?d"] obtain buf' rest where
      "send_loop n 0 (sent buf (int (length ?d))) (w @ ?d) (replicate m (n, 0))
         = Some (0, buf', (w @ ?d) @ sb_data (sent buf (int (length ?d))), rest)"
      "sb_data buf' = []" by blast
    moreover have "(w @ ?d) @ sb_data (sent buf (int (length ?d))) = w @ sb_data buf"
      using d' by (simp add: getData_def)
    ultimately show ?thesis using dne kpos k by simp
  qed
qed

lemma send_accepts_all:
  assumes "sendBuf s = b # rest" and "0 < sendBufSize g" and "length (sb_data b) \<le> m"
  shows "\<exists>s' sc. send g s (replicate m (sendBufSize g, 0)) = Some (0, s', sc) \<and>
           wire s' = wire s @ sb_data b \<and> sendBuf s' = rest"
proof -
  from send_loop_accepts_all [OF assms(2,3), of "wire s"] obtain buf' sc where
    l: "send_loop (sendBufSize g) 0 b (wire s) (replicate m (sendBufSize g, 0))
          = Some (0, buf', wire s @ sb_data b, sc)" and e: "sb_data buf' = []" by blast
  show ?thesis
    using assms(1) l e
    by (simp add: send_def send_drain_def send_finish_def send_switch_def modifyPoll_def
        atEnd_def Let_def)
qed

lemma run_append:
  "run g s (xs @ ys) = (case run g s xs of None \<Rightarrow> None | Some s1 \<Rightarrow> run g s1 ys)"
  by (induction g s xs rule: run.induct) (auto split: option.splits)

lemma run_enqueues:
  "run g s (map Enqueue bufs) = Some (s\<lparr>sendBuf := sendBuf s @ bufs\<rparr>)"
  by (induction bufs arbitrary: s) (simp_all add: enqueueSendData_def)

lemma run_sends_accepted:
  assumes "0 < sendBufSize g" and "sendBuf s = bufs"
  shows "\<exists>s'. run g s (map (\<lambda>b. Send (replicate (length (sb_data b)) (sendBufSize g, 0))) bufs)
             = Some s' \<and> wire s' = wire s @ concat (map sb_data bufs) \<and> sendBuf s' = []"
  using assms(2)
proof (induction bufs arbitrary: s)
  case Nil
  then show ?case by simp
next
  case (Cons b bufs)
  from send_accepts_all [OF Cons.prems assms(1) le_refl] obtain s1 sc where
    s1: "send g s (replicate (length (sb_data b)) (sendBufSize g, 0)) = Some (0, s1, sc)"
        "wire s1 = wire s @ sb_data b" "sendBuf s1 = bufs" by blast
  from Cons.IH [OF s1(3)] s1 show ?case by auto
qed


lemma send_deleted_marked:
  assumes "send g s script = Some (ret, s', script')"
      and "\<forall>b \<in> set (deleted s). atEnd b \<or> responseBytes (accessLogger b) = -1"
  shows "\<forall>b \<in> set (deleted s'). atEnd b \<or> responseBytes (accessLogger b) = -1"
proof (cases "sendBuf s = []")
  case True
  then show ?thesis using assms by (simp add: send_def)
next
  case False
  then obtain err b1 w1 where
    r: "s' = snd (send_finish err (s\<lparr>sendBuf := b1 # tl (sendBuf s), wire := w1\<rparr>))"
    using assms(1) by (auto simp: send_def send_drain_def split: option.splits)
  show ?thesis
    using assms(2)
    by (auto simp add: r send_finish_def send_switch_def modifyPoll_def setResponseBytes_def
        atEnd_def Let_def)
qed

lemma run_deleted_marked:
  assumes "run g s0 ops = Some s"
      and "\<forall>b \<in> set (deleted s0). atEnd b \<or> responseBytes (accessLogger b) = -1"
  shows "\<forall>b \<in> set (deleted s). atEnd b \<or> responseBytes (accessLogger b) = -1"
  using assms
proof (induction g s0 ops rule: run.induct)
  case (1 g s0)
  then show ?case by simp
next
  case (2 g s0 buffer ops)
  then show ?case by (simp add: enqueueSendData_def)
next
  case (3 g s0 bytes ops)
  then show ?case by (simp add: enqueueSendBytes_def)
next
  case (4 g s0 script ops)
  from "4.prems"(1) obtain ret s' rest where
    x: "send g s0 script = Some (ret, s', rest)" "run g s' ops = Some s"
    by (auto split: option.splits)
  from "4.IH" [OF x(1) refl refl x(2) send_deleted_marked [OF x(1) "4.prems"(2)]]
  show ?case .
qed

subsection \<open>Identifiers\<close>








subsection \<open>Buffer sizes\<close>

lemma initBuffer_set: "sendBufSize g \<noteq> 0 \<Longrightarrow> initBuffer g a b = g"
  by (simp add: initBuffer_def)

lemma initBuffer_calls_set: "sendBufSize g \<noteq> 0 \<Longrightarrow> initBuffer_calls g qs = g"
  by (induction qs arbitrary: g) (simp_all add: initBuffer_set)

section \<open>Properties\<close>

text \<open>
  C1, as amended. For every sequence of enqueued outbound buffers and calls of \<open>send()\<close>
  that starts with an empty queue, the bytes written to the socket appear in enqueue
  (FIFO) order: the buffers enqueued are, in order, the originals of the buffers deleted,
  then the original of the head, then the rest of the queue exactly as it was enqueued,
  and the wire holds, in that order, the bytes each deleted buffer had lost when it was
  deleted and the bytes the head has lost so far. \<open>send()\<close> reads from and advances the
  head only, only heads are deleted, and later entries are untouched. A buffer deleted
  before its end is one that a send error failed (its response-byte count is -1); its
  unsent bytes never reach the wire. When no kernel reply carries an error (every
  \<open>errno\<close> is 0 or would-block), every deleted buffer was sent to its end, and the wire
  followed by the bytes still queued is exactly the enqueued byte sequence. With a kernel
  that takes every window it is offered, one call of \<open>send()\<close> per buffer writes all
  the enqueued bytes and empties the queue.
\<close>

theorem send_fifo_order:
  assumes "run g s0 ops = Some s"
      and "sendBuf s0 = []" and "deleted s0 = []" and "wire s0 = []"
  shows "(\<exists>ps ph olds. length ps = length (deleted s) \<and> wire s = concat ps @ ph \<and>
            map sb_data olds = map2 (@) ps (map sb_data (deleted s)) \<and>
            (case sendBuf s of
               [] \<Rightarrow> ph = [] \<and> buffers ops = olds
             | b # rest \<Rightarrow> \<exists>b0. sb_data b0 = ph @ sb_data b \<and> buffers ops = olds @ b0 # rest))
       \<and> (\<forall>b \<in> set (deleted s). atEnd b \<or> responseBytes (accessLogger b) = -1)
       \<and> ((\<forall>script r. Send script \<in> set ops \<and> r \<in> set script \<longrightarrow>
               snd r = 0 \<or> snd r = EAGAIN) \<longrightarrow>
             wire s @ concat (map sb_data (sendBuf s)) = concat (map sb_data (buffers ops)) \<and>
             (\<forall>b \<in> set (deleted s). atEnd b))
       \<and> (0 < sendBufSize g \<longrightarrow>
            (\<exists>s'. run g s0 (map Enqueue bufs @
                       map (\<lambda>b. Send (replicate (length (sb_data b)) (sendBufSize g, 0))) bufs)
                     = Some s' \<and>
                   wire s' = concat (map sb_data bufs) \<and> sendBuf s' = []))"
proof -
  have "fifo [] s0" unfolding fifo_def using assms(2-4) by simp
  from fifo_run [OF assms(1) this] have f: "fifo (buffers ops) s" by simp
  then obtain ps ph olds where h: "length ps = length (deleted s)" "wire s = concat ps @ ph"
     "map sb_data olds = map2 (@) ps (map sb_data (deleted s))"
     "case sendBuf s of [] \<Rightarrow> ph = [] \<and> buffers ops = olds
       | b # rest \<Rightarrow> \<exists>b0. sb_data b0 = ph @ sb_data b \<and> buffers ops = olds @ b0 # rest"
    unfolding fifo_def by blast
  have m: "\<forall>b \<in> set (deleted s). atEnd b \<or> responseBytes (accessLogger b) = -1"
    using run_deleted_marked [OF assms(1)] assms(3) by simp
  have x: "wire s @ concat (map sb_data (sendBuf s)) = concat (map sb_data (buffers ops)) \<and>
           (\<forall>b \<in> set (deleted s). atEnd b)"
    if bn: "\<forall>script r. Send script \<in> set ops \<and> r \<in> set script \<longrightarrow> snd r = 0 \<or> snd r = EAGAIN"
  proof -
    have e: "\<forall>b \<in> set (deleted s). atEnd b"
      using run_benign_deleted [OF assms(1) bn] assms(3) by simp
    have "map2 (@) ps (map sb_data (deleted s)) = ps"
      using h(1) e by (intro map2_append_nil) (auto simp: atEnd_def)
    then have o: "map sb_data olds = ps" using h(3) by simp
    have "wire s @ concat (map sb_data (sendBuf s)) = concat (map sb_data (buffers ops))"
    proof (cases "sendBuf s")
      case Nil
      then show ?thesis using h(2,4) o by simp
    next
      case (Cons b rest)
      then obtain b0 where "sb_data b0 = ph @ sb_data b" "buffers ops = olds @ b0 # rest"
        using h(4) by auto
      then show ?thesis using h(2) o Cons by simp
    qed
    then show ?thesis using e by simp
  qed
  have d: "\<exists>s'. run g s0 (map Enqueue bufs @
                       map (\<lambda>b. Send (replicate (length (sb_data b)) (sendBufSize g, 0))) bufs)
                     = Some s' \<and>
                   wire s' = concat (map sb_data bufs) \<and> sendBuf s' = []"
    if "0 < sendBufSize g"
  proof -
    have "sendBuf (s0\<lparr>sendBuf := sendBuf s0 @ bufs\<rparr>) = bufs" using assms(2) by simp
    from run_sends_accepted [OF that this] show ?thesis
      using assms(4) by (simp add: run_append run_enqueues)
  qed
  have g: "\<exists>ps ph olds. length ps = length (deleted s) \<and> wire s = concat ps @ ph \<and>
            map sb_data olds = map2 (@) ps (map sb_data (deleted s)) \<and>
            (case sendBuf s of
               [] \<Rightarrow> ph = [] \<and> buffers ops = olds
             | b # rest \<Rightarrow> \<exists>b0. sb_data b0 = ph @ sb_data b \<and> buffers ops = olds @ b0 # rest)"
    using f unfolding fifo_def .
  show ?thesis using g m x d by blast
qed

theorem send_fifo_order_witness:
  "run statics2 conn0
     [EnqueueBytes [1, 2, 3], EnqueueBytes [4, 5], Send [(2, 0), (-1, 11)], Send [(5, 0)],
      Send [(1, 0), (-1, 11)]]
   = Some \<lparr>sd = 7, identifier = 1,
           sendBuf = [\<lparr>sb_data = [5], accessLogger = \<lparr>responseBytes = 1\<rparr>\<rparr>],
           recvBuffer = [], wire = [1, 2, 3, 4],
           accessLog = [\<lparr>responseBytes = 3\<rparr>],
           deleted = [\<lparr>sb_data = [], accessLogger = \<lparr>responseBytes = 3\<rparr>\<rparr>],
           polled = [EPOLLIN OR EPOLLOUT OR EPOLLET], closedFds = []\<rparr>
   \<and> [1, 2, 3, 4] @ [5] =
       concat (map sb_data (buffers
         [EnqueueBytes [1, 2, 3], EnqueueBytes [4, 5], Send [(2, 0), (-1, 11)], Send [(5, 0)],
          Send [(1, 0), (-1, 11)]]))
   \<and> 0 < sendBufSize statics2
   \<and> (\<exists>s'. run statics2 conn0
              [Enqueue (new_TSendBuffer [1, 2, 3]), Enqueue (new_TSendBuffer [4, 5]),
               Send [(2, 0), (2, 0), (2, 0)], Send [(2, 0), (2, 0)]] = Some s' \<and>
            wire s' = [1, 2, 3, 4, 5] \<and> sendBuf s' = [])"
proof -
  let ?ops = "[EnqueueBytes [1, 2, 3], EnqueueBytes [4, 5], Send [(2, 0), (-1, 11)],
      Send [(5, 0)], Send [(1, 0), (-1, 11)]]"
  let ?s = "\<lparr>sd = 7, identifier = 1,
           sendBuf = [\<lparr>sb_data = [5], accessLogger = \<lparr>responseBytes = 1\<rparr>\<rparr>],
           recvBuffer = [], wire = [1, 2, 3, 4],
           accessLog = [\<lparr>responseBytes = 3\<rparr>],
           deleted = [\<lparr>sb_data = [], accessLogger = \<lparr>responseBytes = 3\<rparr>\<rparr>],
           polled = [EPOLLIN OR EPOLLOUT OR EPOLLET], closedFds = []\<rparr>"
  have r: "run statics2 conn0 ?ops = Some ?s"
    by (simp add: model_defs)
  have e: "sendBuf conn0 = []" "deleted conn0 = []" "wire conn0 = []"
    by (simp_all add: conn0_def TEpollSocket_def)
  have b: "\<forall>script r. Send script \<in> set ?ops \<and> r \<in> set script \<longrightarrow> snd r = 0 \<or> snd r = EAGAIN"
    by (auto simp add: EAGAIN_def)
  have z: "0 < sendBufSize statics2" by (simp add: model_defs)
  note t = send_fifo_order [OF r e, of "[new_TSendBuffer [1, 2, 3], new_TSendBuffer [4, 5]]"]
  from t b have 1: "wire ?s @ concat (map sb_data (sendBuf ?s)) = concat (map sb_data (buffers ?ops))"
    by blast
  from t z have 2: "\<exists>s'. run statics2 conn0
       (map Enqueue [new_TSendBuffer [1, 2, 3], new_TSendBuffer [4, 5]] @
        map (\<lambda>b. Send (replicate (length (sb_data b)) (sendBufSize statics2, 0)))
          [new_TSendBuffer [1, 2, 3], new_TSendBuffer [4, 5]]) = Some s' \<and>
       wire s' = concat (map sb_data [new_TSendBuffer [1, 2, 3], new_TSendBuffer [4, 5]]) \<and>
       sendBuf s' = []"
    by blast
  have 3: "\<exists>s'. run statics2 conn0
              [Enqueue (new_TSendBuffer [1, 2, 3]), Enqueue (new_TSendBuffer [4, 5]),
               Send [(2, 0), (2, 0), (2, 0)], Send [(2, 0), (2, 0)]] = Some s' \<and>
            wire s' = [1, 2, 3, 4, 5] \<and> sendBuf s' = []"
    using 2 by (simp add: new_TSendBuffer_def statics2_def initBuffer_def initial_statics_def
        numeral_3_eq_3 numeral_2_eq_2)
  show ?thesis using r 1 z 3 by simp
qed

text \<open>
  The claim as stated fails: when the first buffer meets a connection reset after two of
  its three bytes, it is discarded, and the next call sends the second buffer. The wire
  then holds 1, 2, 4, 5, which is not the enqueued byte sequence 1, 2, 3, 4, 5.
\<close>

theorem send_error_drops_bytes:
  "map_option wire (run statics2 conn0
     [EnqueueBytes [1, 2, 3], EnqueueBytes [4, 5], Send [(2, 0), (-1, 104)], Send [(2, 0)]])
     = Some [1, 2, 4, 5]
   \<and> concat (map sb_data (buffers
       [EnqueueBytes [1, 2, 3], EnqueueBytes [4, 5], Send [(2, 0), (-1, 104)], Send [(2, 0)]]))
     = [1, 2, 3, 4, 5]"
  by (simp add: model_defs)

text \<open>
  C2, as amended. On destruction of a connection the descriptor is closed if it is still
  open (\<open>sd > 0\<close>) and cleared to 0, and every still-queued outbound buffer is deleted
  in FIFO order, without any send: the wire, the access log and the reactor's interest
  are as before. The destructor writes no access-log record.
\<close>

theorem destructor_effect:
  "destructor s =
     s\<lparr>sd := (if sd s > 0 then 0 else sd s),
       closedFds := (if sd s > 0 then closedFds s @ [sd s] else closedFds s),
       deleted := deleted s @ sendBuf s,
       sendBuf := []\<rparr>"
  by (simp add: destructor_def close_def Let_def)

text \<open>
  The claim as stated fails: destroying a connection with two buffers queued deletes
  both and writes no access-log record.
\<close>

theorem destructor_writes_no_access_log:
  "sendBuf conn2 = [new_TSendBuffer [1, 2, 3], new_TSendBuffer [4, 5]] \<and>
   deleted (destructor conn2) = [new_TSendBuffer [1, 2, 3], new_TSendBuffer [4, 5]] \<and>
   closedFds (destructor conn2) = [7] \<and>
   accessLog (destructor conn2) = []"
  by (simp add: model_defs)

text \<open>
  C3, as amended. \<open>receive()\<close> has two results. After any number of positive reads, it
  returns 0 (success) when the read that ends the loop leaves \<open>errno\<close> at would-block,
  and -1 for every other ending: a zero-length read with no error, a connection reset and
  any other OS error alike.
\<close>

theorem recv_two_results:
  assumes "\<forall>r \<in> set pre. rr_len r > 0" and "rr_len t \<le> 0"
  shows "map_option fst (recv g s (pre @ t # rest)) =
           Some (if rr_errno t = EAGAIN then 0 else -1)"
  using recv_loop_drains [OF assms] by (simp add: recv_def recv_switch_def)

theorem recv_two_results_witness:
  "map_option fst (recv statics2 conn0
      ([\<lparr>rr_len = 2, rr_errno = 0, rr_bytes = [1, 2]\<rparr>] @
       \<lparr>rr_len = 0, rr_errno = 0, rr_bytes = []\<rparr> # [])) = Some (-1)
   \<and> map_option fst (recv statics2 conn0
      ([\<lparr>rr_len = 2, rr_errno = 0, rr_bytes = [1, 2]\<rparr>] @
       \<lparr>rr_len = -1, rr_errno = 11, rr_bytes = []\<rparr> # [])) = Some 0"
  using recv_two_results [of "[\<lparr>rr_len = 2, rr_errno = 0, rr_bytes = [1, 2]\<rparr>]"
      "\<lparr>rr_len = 0, rr_errno = 0, rr_bytes = []\<rparr>" statics2 conn0 "[]"]
    recv_two_results [of "[\<lparr>rr_len = 2, rr_errno = 0, rr_bytes = [1, 2]\<rparr>]"
      "\<lparr>rr_len = -1, rr_errno = 11, rr_bytes = []\<rparr>" statics2 conn0 "[]"]
  by (simp add: EAGAIN_def)

text \<open>
  The claim as stated fails: a first read of length zero gives the result -1, and so
  does a first read that fails with \<open>errno = 5\<close> (\<open>EIO\<close>). Closed is not a result
  distinct from error.
\<close>

theorem recv_closed_is_error:
  "map_option fst (recv statics2 conn0 [\<lparr>rr_len = 0, rr_errno = 0, rr_bytes = []\<rparr>]) = Some (-1) \<and>
   map_option fst (recv statics2 conn0 [\<lparr>rr_len = -1, rr_errno = 5, rr_bytes = []\<rparr>]) = Some (-1)"
  by (simp add: model_defs)

text \<open>
  C4. When the kernel delivers bytes in any number of positive reads, each storing as
  many bytes as it returns, and then answers would-block, \<open>receive()\<close> returns success
  (0) and the receive buffer has grown by exactly the bytes read, in order: their number
  is the sum of the lengths returned, however the kernel fragmented the delivery.
\<close>

theorem recv_commits_all:
  assumes "\<forall>r \<in> set pre. rr_len r > 0 \<and> rr_len r = int (length (rr_bytes r))"
      and "rr_len t \<le> 0" and "rr_errno t = EAGAIN"
  shows "recv g s (pre @ t # rest) =
           Some (0, s\<lparr>recvBuffer := recvBuffer s @ concat (map rr_bytes pre)\<rparr>, rest)
       \<and> int (length (concat (map rr_bytes pre))) = sum_list (map rr_len pre)"
proof -
  have pos: "\<forall>r \<in> set pre. rr_len r > 0" using assms(1) by blast
  have "\<And>r. r \<in> set pre \<Longrightarrow> take (nat (rr_len r)) (rr_bytes r) = rr_bytes r"
    using assms(1) by simp
  then have eq: "map (\<lambda>r. take (nat (rr_len r)) (rr_bytes r)) pre = map rr_bytes pre"
    by (rule map_cong [OF refl])
  have "recv_loop (recvBufSize g) (recvBuffer s) (pre @ t # rest) =
      Some (EAGAIN, recvBuffer s @ concat (map rr_bytes pre), rest)"
    unfolding recv_loop_drains [OF pos assms(2)] assms(3) eq by (rule refl)
  then have a: "recv g s (pre @ t # rest) =
           Some (0, s\<lparr>recvBuffer := recvBuffer s @ concat (map rr_bytes pre)\<rparr>, rest)"
    by (simp add: recv_def recv_switch_def)
  have b: "int (length (concat (map rr_bytes pre))) = sum_list (map rr_len pre)"
    using assms(1) by (intro recv_bytes_length) blast
  show ?thesis using a b by simp
qed

theorem recv_commits_all_witness:
  "recv statics2 conn0
     ([\<lparr>rr_len = 2, rr_errno = 0, rr_bytes = [1, 2]\<rparr>,
       \<lparr>rr_len = 1, rr_errno = 0, rr_bytes = [3]\<rparr>] @
      \<lparr>rr_len = -1, rr_errno = EAGAIN, rr_bytes = []\<rparr> # [])
   = Some (0, conn0\<lparr>recvBuffer := [1, 2, 3]\<rparr>, [])"
  using recv_commits_all [of "[\<lparr>rr_len = 2, rr_errno = 0, rr_bytes = [1, 2]\<rparr>,
       \<lparr>rr_len = 1, rr_errno = 0, rr_bytes = [3]\<rparr>]"
      "\<lparr>rr_len = -1, rr_errno = EAGAIN, rr_bytes = []\<rparr>" statics2 conn0 "[]"]
  by (simp add: conn0_def TEpollSocket_def)

text \<open>
  C5. When the loop of \<open>send()\<close> ends with a connection reset or any other OS error
  (an \<open>errno\<close> that is neither 0 nor would-block), the response-byte count of the head
  buffer is set to -1, its access-log record is written, the head is removed from the
  queue and deleted, \<open>send()\<close> returns -1, and the later buffers stay queued as they
  were. When the loop ends without error and the head is at its end, the head's record is
  written as it stands and the head is removed and deleted as well, and \<open>send()\<close>
  returns 0.
\<close>

theorem send_retires_head:
  assumes "sendBuf s \<noteq> []" and "send_drain g s script = Some (err, s1, script')"
  shows "(err \<noteq> 0 \<and> err \<noteq> EAGAIN \<longrightarrow>
            send g s script =
              Some (-1,
                    s1\<lparr>sendBuf := tl (sendBuf s),
                       polled := polled s @ [EPOLLIN OR EPOLLOUT OR EPOLLET],
                       accessLog := accessLog s @ [\<lparr>responseBytes = -1\<rparr>],
                       deleted := deleted s @
                         [(hd (sendBuf s1))\<lparr>accessLogger := \<lparr>responseBytes = -1\<rparr>\<rparr>]\<rparr>,
                    script'))
       \<and> ((err = 0 \<or> err = EAGAIN) \<and> atEnd (hd (sendBuf s1)) \<longrightarrow>
            send g s script =
              Some (0,
                    s1\<lparr>sendBuf := tl (sendBuf s),
                       polled := (if err = EAGAIN then polled s
                                  else polled s @ [EPOLLIN OR EPOLLOUT OR EPOLLET]),
                       accessLog := accessLog s @ [accessLogger (hd (sendBuf s1))],
                       deleted := deleted s @ [hd (sendBuf s1)]\<rparr>,
                    script'))"
proof -
  obtain buf where q: "sendBuf s1 = buf # tl (sendBuf s)"
    using send_drain_queue [OF assms(2)] by blast
  note fr = send_drain_frame [OF assms(2)]
  note un = send_unfold [OF assms]
  have a: "send g s script =
              Some (-1,
                    s1\<lparr>sendBuf := tl (sendBuf s),
                       polled := polled s @ [EPOLLIN OR EPOLLOUT OR EPOLLET],
                       accessLog := accessLog s @ [\<lparr>responseBytes = -1\<rparr>],
                       deleted := deleted s @
                         [(hd (sendBuf s1))\<lparr>accessLogger := \<lparr>responseBytes = -1\<rparr>\<rparr>]\<rparr>,
                    script')" if "err \<noteq> 0" "err \<noteq> EAGAIN"
    using un q fr send_finish_error [OF that q]
    by (simp add: setResponseBytes_def)
  have b: "send g s script =
              Some (0,
                    s1\<lparr>sendBuf := tl (sendBuf s),
                       polled := (if err = EAGAIN then polled s
                                  else polled s @ [EPOLLIN OR EPOLLOUT OR EPOLLET]),
                       accessLog := accessLog s @ [accessLogger (hd (sendBuf s1))],
                       deleted := deleted s @ [hd (sendBuf s1)]\<rparr>,
                    script')" if "err = 0 \<or> err = EAGAIN" "atEnd (hd (sendBuf s1))"
  proof -
    have "atEnd buf" using that(2) q by simp
    from send_finish_end [OF that(1) q this] show ?thesis
      using un q fr by simp
  qed
  show ?thesis using a b by blast
qed

theorem send_retires_head_witness:
  "sendBuf conn2 \<noteq> [] \<and>
   send_drain statics2 conn2 [(2, 0), (-1, 104)] =
     Some (104, conn2\<lparr>sendBuf := [\<lparr>sb_data = [3], accessLogger = \<lparr>responseBytes = 2\<rparr>\<rparr>,
                                   new_TSendBuffer [4, 5]], wire := [1, 2]\<rparr>, []) \<and>
   send statics2 conn2 [(2, 0), (-1, 104)] =
     Some (-1, conn2\<lparr>sendBuf := [new_TSendBuffer [4, 5]], wire := [1, 2],
                     polled := [EPOLLIN OR EPOLLOUT OR EPOLLET],
                     accessLog := [\<lparr>responseBytes = -1\<rparr>],
                     deleted := [\<lparr>sb_data = [3], accessLogger = \<lparr>responseBytes = -1\<rparr>\<rparr>]\<rparr>, []) \<and>
   send_drain statics2 conn2 [(2, 0), (1, 0)] =
     Some (0, conn2\<lparr>sendBuf := [\<lparr>sb_data = [], accessLogger = \<lparr>responseBytes = 3\<rparr>\<rparr>,
                                 new_TSendBuffer [4, 5]], wire := [1, 2, 3]\<rparr>, []) \<and>
   send statics2 conn2 [(2, 0), (1, 0)] =
     Some (0, conn2\<lparr>sendBuf := [new_TSendBuffer [4, 5]], wire := [1, 2, 3],
                    polled := [EPOLLIN OR EPOLLOUT OR EPOLLET],
                    accessLog := [\<lparr>responseBytes = 3\<rparr>],
                    deleted := [\<lparr>sb_data = [], accessLogger = \<lparr>responseBytes = 3\<rparr>\<rparr>]\<rparr>, [])"
proof -
  have n: "sendBuf conn2 \<noteq> []" by (simp add: model_defs)
  have d1: "send_drain statics2 conn2 [(2, 0), (-1, 104)] =
     Some (104, conn2\<lparr>sendBuf := [\<lparr>sb_data = [3], accessLogger = \<lparr>responseBytes = 2\<rparr>\<rparr>,
                                   new_TSendBuffer [4, 5]], wire := [1, 2]\<rparr>, [])"
    by (simp add: model_defs)
  have d2: "send_drain statics2 conn2 [(2, 0), (1, 0)] =
     Some (0, conn2\<lparr>sendBuf := [\<lparr>sb_data = [], accessLogger = \<lparr>responseBytes = 3\<rparr>\<rparr>,
                                 new_TSendBuffer [4, 5]], wire := [1, 2, 3]\<rparr>, [])"
    by (simp add: model_defs)
  show ?thesis
    using n d1 d2 send_retires_head [OF n d1] send_retires_head [OF n d2]
    by (simp add: model_defs)
qed

text \<open>
  C6. \<open>send()\<close> asks the reactor to re-arm the connection for read and write
  readiness, edge-triggered, exactly when the queue was not empty, the loop ended with an
  \<open>errno\<close> other than would-block, and the queue is not empty after the loop. A call that
  returns has added this one event mask to the reactor's calls in that case, and has made
  no call of the reactor otherwise.
\<close>

theorem send_rearms_iff:
  assumes "send g s script = Some (ret, s', script')"
  shows "polled s' =
          (if sendBuf s \<noteq> [] \<and>
              (\<exists>err s1 rest. send_drain g s script = Some (err, s1, rest) \<and>
                              err \<noteq> EAGAIN \<and> sendBuf s1 \<noteq> [])
           then polled s @ [EPOLLIN OR EPOLLOUT OR EPOLLET]
           else polled s)"
proof (cases "sendBuf s = []")
  case True
  then show ?thesis using assms by (simp add: send_def)
next
  case False
  then obtain err s1 where d: "send_drain g s script = Some (err, s1, script')"
    and r: "s' = snd (send_finish err s1)"
    using assms by (auto simp: send_def split: option.splits)
  from send_drain_queue [OF d] have ne: "sendBuf s1 \<noteq> []" by auto
  show ?thesis
    using False d ne send_finish_polled [OF ne, of err] send_drain_frame [OF d]
    by (simp add: r)
qed

theorem send_rearms_iff_witness:
  "send statics2 conn2 [(2, 0), (-1, 11)] =
     Some (0, conn2\<lparr>sendBuf := [\<lparr>sb_data = [3], accessLogger = \<lparr>responseBytes = 2\<rparr>\<rparr>,
                                 new_TSendBuffer [4, 5]], wire := [1, 2]\<rparr>, []) \<and>
   polled (conn2\<lparr>sendBuf := [\<lparr>sb_data = [3], accessLogger = \<lparr>responseBytes = 2\<rparr>\<rparr>,
                             new_TSendBuffer [4, 5]], wire := [1, 2]\<rparr>) = [] \<and>
   send statics2 conn2 [(2, 0), (0, 0)] =
     Some (0, conn2\<lparr>sendBuf := [\<lparr>sb_data = [3], accessLogger = \<lparr>responseBytes = 2\<rparr>\<rparr>,
                                 new_TSendBuffer [4, 5]], wire := [1, 2],
                    polled := [EPOLLIN OR EPOLLOUT OR EPOLLET]\<rparr>, []) \<and>
   polled (conn2\<lparr>sendBuf := [\<lparr>sb_data = [3], accessLogger = \<lparr>responseBytes = 2\<rparr>\<rparr>,
                             new_TSendBuffer [4, 5]], wire := [1, 2],
                  polled := [EPOLLIN OR EPOLLOUT OR EPOLLET]\<rparr>) = [EPOLLIN OR EPOLLOUT OR EPOLLET]"
proof -
  have a: "send statics2 conn2 [(2, 0), (-1, 11)] =
     Some (0, conn2\<lparr>sendBuf := [\<lparr>sb_data = [3], accessLogger = \<lparr>responseBytes = 2\<rparr>\<rparr>,
                                 new_TSendBuffer [4, 5]], wire := [1, 2]\<rparr>, [])"
    by (simp add: model_defs)
  have b: "send statics2 conn2 [(2, 0), (0, 0)] =
     Some (0, conn2\<lparr>sendBuf := [\<lparr>sb_data = [3], accessLogger = \<lparr>responseBytes = 2\<rparr>\<rparr>,
                                 new_TSendBuffer [4, 5]], wire := [1, 2],
                    polled := [EPOLLIN OR EPOLLOUT OR EPOLLET]\<rparr>, [])"
    by (simp add: model_defs)
  show ?thesis
    using a b send_rearms_iff [OF a] send_rearms_iff [OF b]
    by (simp add: model_defs)
qed

text \<open>
  C10. In \<open>send()\<close> the re-arm check comes before the retirement of the head, and the
  queue is never empty at that check in a call that passed the empty-queue guard. So every
  call on a non-empty queue whose loop ends with an \<open>errno\<close> other than would-block
  re-arms the reactor for read and write readiness; this includes the call whose head is
  sent to its end without error and retired in the same call, which leaves the queue
  empty when the head was the only entry.
\<close>

theorem send_rearms_though_drained:
  assumes "sendBuf s \<noteq> []" and "send_drain g s script = Some (err, s1, script')"
      and "err \<noteq> EAGAIN"
  shows "sendBuf s1 \<noteq> [] \<and>
         (\<exists>ret s'. send g s script = Some (ret, s', script') \<and>
            polled s' = polled s @ [EPOLLIN OR EPOLLOUT OR EPOLLET] \<and>
            (err = 0 \<and> atEnd (hd (sendBuf s1)) \<and> tl (sendBuf s) = [] \<longrightarrow>
               ret = 0 \<and> sendBuf s' = []))"
proof -
  obtain buf where q: "sendBuf s1 = buf # tl (sendBuf s)"
    using send_drain_queue [OF assms(2)] by blast
  then have ne: "sendBuf s1 \<noteq> []" by simp
  note un = send_unfold [OF assms(1,2)]
  have p: "polled (snd (send_finish err s1)) = polled s @ [EPOLLIN OR EPOLLOUT OR EPOLLET]"
    using send_finish_polled [OF ne, of err] assms(3) send_drain_frame [OF assms(2)] by simp
  have e: "fst (send_finish err s1) = 0 \<and> sendBuf (snd (send_finish err s1)) = []"
    if "err = 0" "atEnd (hd (sendBuf s1))" "tl (sendBuf s) = []"
  proof -
    have "atEnd buf" using that(2) q by simp
    from send_finish_end [OF _ q this, of err] that show ?thesis using q by simp
  qed
  show ?thesis using ne un p e by blast
qed

theorem send_rearms_though_drained_witness:
  "sendBuf (enqueueSendBytes conn0 [1, 2]) \<noteq> [] \<and>
   send_drain statics2 (enqueueSendBytes conn0 [1, 2]) [(2, 0)] =
     Some (0, conn0\<lparr>sendBuf := [\<lparr>sb_data = [], accessLogger = \<lparr>responseBytes = 2\<rparr>\<rparr>],
                    wire := [1, 2]\<rparr>, []) \<and>
   (0 :: int) \<noteq> EAGAIN \<and>
   send statics2 (enqueueSendBytes conn0 [1, 2]) [(2, 0)] =
     Some (0, conn0\<lparr>sendBuf := [], wire := [1, 2],
                    polled := [EPOLLIN OR EPOLLOUT OR EPOLLET],
                    accessLog := [\<lparr>responseBytes = 2\<rparr>],
                    deleted := [\<lparr>sb_data = [], accessLogger = \<lparr>responseBytes = 2\<rparr>\<rparr>]\<rparr>, [])"
proof -
  have n: "sendBuf (enqueueSendBytes conn0 [1, 2]) \<noteq> []" by (simp add: model_defs)
  have d: "send_drain statics2 (enqueueSendBytes conn0 [1, 2]) [(2, 0)] =
     Some (0, conn0\<lparr>sendBuf := [\<lparr>sb_data = [], accessLogger = \<lparr>responseBytes = 2\<rparr>\<rparr>],
                    wire := [1, 2]\<rparr>, [])"
    by (simp add: model_defs)
  have e: "(0 :: int) \<noteq> EAGAIN" by (simp add: EAGAIN_def)
  show ?thesis
    using n d e send_rearms_though_drained [OF n d e]
    by (simp add: model_defs)
qed




text \<open>
  C8, as amended. The first call of buffer size discovery in a process queries the OS
  for both sizes and takes 131072 for any value whose query fails. Every later call is a
  no-op that leaves both values as they are, provided the first call did not read a send
  size of 0: the value 0 of the send size is what marks the sizes as not yet discovered.
\<close>

theorem initBuffer_once:
  assumes "a \<noteq> Some 0"
  shows "initBuffer initial_statics a b =
           initial_statics\<lparr>sendBufSize := (case a of None \<Rightarrow> 131072 | Some v \<Rightarrow> v),
                            recvBufSize := (case b of None \<Rightarrow> 131072 | Some v \<Rightarrow> v)\<rparr>
         \<and> initBuffer_calls (initBuffer initial_statics a b) qs = initBuffer initial_statics a b"
proof -
  have 1: "initBuffer initial_statics a b =
           initial_statics\<lparr>sendBufSize := (case a of None \<Rightarrow> 131072 | Some v \<Rightarrow> v),
                            recvBufSize := (case b of None \<Rightarrow> 131072 | Some v \<Rightarrow> v)\<rparr>"
    by (simp add: initBuffer_def initial_statics_def BUF_SIZE_def split: option.splits)
  have "sendBufSize (initBuffer initial_statics a b) \<noteq> 0"
    using assms by (cases a) (simp_all add: initBuffer_def initial_statics_def BUF_SIZE_def)
  then show ?thesis using 1 initBuffer_calls_set by simp
qed

theorem initBuffer_once_witness:
  "(None :: int option) \<noteq> Some 0 \<and>
   initBuffer initial_statics None (Some 87380) =
     \<lparr>sendBufSize = 131072, recvBufSize = 87380, objectCounter = 1\<rparr> \<and>
   initBuffer_calls (initBuffer initial_statics None (Some 87380))
       [(Some 16384, Some 4096), (None, None)] =
     \<lparr>sendBufSize = 131072, recvBufSize = 87380, objectCounter = 1\<rparr>"
  using initBuffer_once [of None "Some 87380" "[(Some 16384, Some 4096), (None, None)]"]
  by (simp add: initial_statics_def initBuffer_def BUF_SIZE_def)

text \<open>
  The claim as stated fails: when the first call reads a send size of 0, the second call
  queries the OS again and changes both values.
\<close>

theorem initBuffer_twice:
  "initBuffer (initBuffer initial_statics (Some 0) (Some 4096)) (Some 8192) (Some 16384)
     = \<lparr>sendBufSize = 8192, recvBufSize = 16384, objectCounter = 1\<rparr> \<and>
   initBuffer initial_statics (Some 0) (Some 4096)
     = \<lparr>sendBufSize = 0, recvBufSize = 4096, objectCounter = 1\<rparr>"
  by (simp add: initBuffer_def initial_statics_def)

text \<open>
  C9. Whenever the outbound queue is empty, \<open>send()\<close> returns success (0) at once: it
  makes no system call (the script of kernel replies is handed back whole) and the whole
  state, with the queue, the access log and the reactor's interest, is as before.
\<close>

theorem send_empty_queue_noop:
  assumes "sendBuf s = []"
  shows "send g s script = Some (0, s, script)"
  using assms by (simp add: send_def)

theorem send_empty_queue_noop_witness:
  "sendBuf conn0 = [] \<and> send statics2 conn0 [(5, 0)] = Some (0, conn0, [(5, 0)])"
proof -
  have e: "sendBuf conn0 = []" by (simp add: conn0_def TEpollSocket_def)
  from send_empty_queue_noop [OF e] e show ?thesis by simp
qed

end
